theory Spec2Isabelle
  imports Main
begin

section \<open>Media dictionaries\<close>

text \<open>
  A media is the dictionary Instagram sends for a post. The looter reads four of its
  keys: \<open>__typename\<close>, \<open>is_video\<close>, \<open>shortcode\<close> and, on a \<open>GraphSidecar\<close>,
  \<open>edge_sidecar_to_children.edges\<close>, a list whose entries each wrap one child
  dictionary under \<open>node\<close>. The caller's condition is applied to posts and to child
  nodes alike, so both are one type. The remaining keys are kept as an association
  list \<open>raw\<close>: the looter never reads them, a caller's condition may.
  Equality of two values is Python's equality of dictionaries.
\<close>

datatype media = Media
  (typename: string)
  (is_video: bool)
  (shortcode: string)
  (edges: "media list")
  (raw: "(string \<times> string) list")

definition set_edges :: "media list \<Rightarrow> media \<Rightarrow> media" where
  "set_edges es m = Media (typename m) (is_video m) (shortcode m) es (raw m)"

section \<open>The looter and its collaborators\<close>

text \<open>
  \<open>NameGenerator\<close> lives in a module of its own; the looter calls two of its methods,
  taken here as they are given (\<open>file\<close> is written \<open>file_name\<close>).
\<close>

record namegen =
  needs_extended :: "media \<Rightarrow> bool"
  file_name :: "media \<Rightarrow> string"

text \<open>The attributes set by \<open>InstaLooter.__init__\<close> (the session apart).\<close>

record looter =
  add_metadata :: bool
  get_videos :: bool
  videos_only :: bool
  jobs :: int
  namegen :: namegen
  dump_only :: bool
  dump_json :: bool
  extended_dump :: bool

definition init :: "bool \<Rightarrow> bool \<Rightarrow> bool \<Rightarrow> int \<Rightarrow> namegen \<Rightarrow> bool \<Rightarrow> bool \<Rightarrow> bool \<Rightarrow> looter" where
  "init add_metadata' get_videos' videos_only' jobs' namegen' dump_json' dump_only' extended_dump' =
     \<lparr> add_metadata = add_metadata',
       get_videos = (get_videos' \<or> videos_only'),
       videos_only = videos_only',
       jobs = jobs',
       namegen = namegen',
       dump_only = dump_only',
       dump_json = (dump_json' \<or> dump_only'),
       extended_dump = extended_dump' \<rparr>"

text \<open>
  What lies outside the process: the answer of \<open>get_post_info\<close> for a shortcode (one
  request to the remote service), \<open>fs.open_fs\<close> for an FS URL, and \<open>exists\<close> on an
  open filesystem. A filesystem is named by a handle. Each is a fixed function for the
  length of one call of \<open>download\<close>: a request that fails raises out of the whole
  call, and files written by the workers while the queue is being filled are not
  seen by \<open>exists\<close>.
\<close>

type_synonym fs = nat

record world =
  get_post_info :: "string \<Rightarrow> media"
  open_fs :: "string \<Rightarrow> fs"
  fs_exists :: "fs \<Rightarrow> string \<Rightarrow> bool"

section \<open>Filling the download queue\<close>

text \<open>The condition built from the looter's flags when the caller gives none.\<close>

definition default_condition :: "looter \<Rightarrow> media \<Rightarrow> bool" where
  "default_condition L m =
     (if videos_only L then is_video m
      else if \<not> get_videos L then \<not> is_video m
      else True)"

text \<open>
  \<open># Check if the whole post info is required\<close>: the media is replaced by the answer
  of \<open>get_post_info\<close> when the name generator asks for it or when it is no
  \<open>GraphImage\<close>.
\<close>

definition whole_post :: "looter \<Rightarrow> world \<Rightarrow> media \<Rightarrow> media" where
  "whole_post L W m =
     (if needs_extended (namegen L) m \<or> typename m \<noteq> ''GraphImage''
      then get_post_info W (shortcode m) else m)"

text \<open>
  \<open># Check that each node fits the condition\<close>: the loop runs over a copy of the edge
  list and calls \<open>list.remove\<close> on the list itself, which deletes the first entry equal
  to its argument.
\<close>

definition drop_edge :: "(media \<Rightarrow> bool) \<Rightarrow> media \<Rightarrow> media list \<Rightarrow> media list" where
  "drop_edge C sidecar es = (if \<not> C sidecar then remove1 sidecar es else es)"

definition check_nodes :: "(media \<Rightarrow> bool) \<Rightarrow> media list \<Rightarrow> media list" where
  "check_nodes C es = fold (drop_edge C) es es"

definition check_sidecar :: "(media \<Rightarrow> bool) \<Rightarrow> media \<Rightarrow> media" where
  "check_sidecar C m =
     (if typename m = ''GraphSidecar'' then set_edges (check_nodes C (edges m)) m else m)"

definition depleted :: "media \<Rightarrow> bool" where
  "depleted m = (typename m = ''GraphSidecar'' \<and> edges m = [])"

text \<open>\<open>media_count is not None and medias_queued >= media_count\<close>\<close>

definition reached :: "int option \<Rightarrow> nat \<Rightarrow> bool" where
  "reached media_count n = (case media_count of None \<Rightarrow> False | Some k \<Rightarrow> k \<le> int n)"

text \<open>
  What \<open>_fill_media_queue\<close> leaves behind: the values it has put on the queue, in
  order (\<open>None\<close> is the poison pill, so a media is \<open>Some\<close>), the count it returns, and
  the part of the media iterator it has not read.
\<close>

record filled =
  put :: "media option list"
  queued :: nat
  unread :: "media list"

text \<open>
  The \<open>for\<close> loop over \<open>six.moves.filter(condition, medias_iter)\<close>. The filter is
  lazy: it reads the iterator up to the next media that passes the condition, and a
  \<open>break\<close> leaves the rest of the iterator unread.
\<close>

fun fill_loop ::
  "looter \<Rightarrow> world \<Rightarrow> fs \<Rightarrow> int option \<Rightarrow> bool \<Rightarrow> (media \<Rightarrow> bool) \<Rightarrow>
   media list \<Rightarrow> media option list \<Rightarrow> nat \<Rightarrow> filled" where
  "fill_loop L W destination media_count new_only C [] queue n =
     \<lparr> put = queue, queued = n, unread = [] \<rparr>"
| "fill_loop L W destination media_count new_only C (m # ms) queue n =
     (if \<not> C m then fill_loop L W destination media_count new_only C ms queue n
      else
        let media = check_sidecar C (whole_post L W m) in
        if depleted media
        then fill_loop L W destination media_count new_only C ms queue n
        else if fs_exists W destination (file_name (namegen L) media) \<and> new_only
        then \<lparr> put = queue, queued = n, unread = ms \<rparr>
        else if reached media_count (Suc n)
        then \<lparr> put = queue @ [Some media], queued = Suc n, unread = ms \<rparr>
        else fill_loop L W destination media_count new_only C ms (queue @ [Some media]) (Suc n))"

text \<open>\<open># Create a condition from parameters if needed\<close>\<close>

definition the_condition :: "looter \<Rightarrow> (media \<Rightarrow> bool) option \<Rightarrow> media \<Rightarrow> bool" where
  "the_condition L condition =
     (case condition of None \<Rightarrow> default_condition L | Some c \<Rightarrow> c)"

definition fill_media_queue ::
  "looter \<Rightarrow> world \<Rightarrow> media option list \<Rightarrow> fs \<Rightarrow> media list \<Rightarrow> int option \<Rightarrow> bool \<Rightarrow>
   (media \<Rightarrow> bool) option \<Rightarrow> filled" where
  "fill_media_queue L W queue destination medias_iter media_count new_only condition =
     (let C = the_condition L condition
      in fill_loop L W destination media_count new_only C medias_iter queue 0)"

section \<open>The scenario of five medias\<close>

definition img1 :: media where "img1 = Media ''GraphImage'' False ''img1'' [] []"
definition vid1 :: media where "vid1 = Media ''GraphVideo'' True ''vid1'' [] []"
definition img2 :: media where "img2 = Media ''GraphImage'' False ''img2'' [] []"
definition img3 :: media where "img3 = Media ''GraphImage'' False ''img3'' [] []"
definition child_img :: media where "child_img = Media ''GraphImage'' False ''child_img'' [] []"
definition child_vid :: media where "child_vid = Media ''GraphVideo'' True ''child_vid'' [] []"
definition sidecar1 :: media where
  "sidecar1 = Media ''GraphSidecar'' False ''sidecar1'' [child_img, child_vid] []"

definition images_only :: "media \<Rightarrow> bool" where
  "images_only m = (\<not> is_video m)"

text \<open>
  A name generator that never asks for the whole post and names a file after the
  shortcode, a remote service that answers each shortcode of the scenario with the
  media itself, and a destination (handle 0) that holds the file of \<open>img2\<close> only.
\<close>

definition plain_names :: namegen where
  "plain_names = \<lparr> needs_extended = (\<lambda>m. False), file_name = (\<lambda>m. shortcode m @ ''.jpg'') \<rparr>"

definition scenario_looter :: looter where
  "scenario_looter = init False False False 2 plain_names False False False"

definition scenario_world :: world where
  "scenario_world =
     \<lparr> get_post_info = (\<lambda>code. if code = ''sidecar1'' then sidecar1
                               else if code = ''vid1'' then vid1
                               else Media ''GraphImage'' False code [] []),
       open_fs = (\<lambda>url. 0),
       fs_exists = (\<lambda>d name. name = ''img2.jpg'') \<rparr>"

definition scenario :: "media list" where
  "scenario = [img1, vid1, img2, img3, sidecar1]"

section \<open>Vocabulary for the properties of the fill\<close>

text \<open>
  The media that the loop holds for \<open>m\<close> when it reaches the existence check: the
  whole post where it is required, its children checked when it is a sidecar.
\<close>

definition staged :: "looter \<Rightarrow> world \<Rightarrow> (media \<Rightarrow> bool) \<Rightarrow> media \<Rightarrow> media" where
  "staged L W C m = check_sidecar C (whole_post L W m)"

text \<open>\<open>m\<close> passes the condition and is not skipped as a sidecar without children.\<close>

definition accepted :: "looter \<Rightarrow> world \<Rightarrow> (media \<Rightarrow> bool) \<Rightarrow> media \<Rightarrow> bool" where
  "accepted L W C m = (C m \<and> \<not> depleted (staged L W C m))"

text \<open>\<open>m\<close> reaches the existence check, its file exists and \<open>new_only\<close> is set.\<close>

definition halting :: "looter \<Rightarrow> world \<Rightarrow> fs \<Rightarrow> bool \<Rightarrow> (media \<Rightarrow> bool) \<Rightarrow> media \<Rightarrow> bool" where
  "halting L W d new_only C m =
     (accepted L W C m \<and> fs_exists W d (file_name (namegen L) (staged L W C m)) \<and> new_only)"

section \<open>Workers\<close>

text \<open>
  A worker is named by the index at which \<open>_init_workers\<close> creates and starts it;
  \<open>range(self.jobs)\<close> is empty for a negative count. The queue is created empty.
\<close>

type_synonym worker = nat

definition init_workers :: "looter \<Rightarrow> worker list \<times> media option list" where
  "init_workers L = (fold (\<lambda>i workers. workers @ [i]) [0..<nat (jobs L)] [], [])"

definition poison_workers :: "worker list \<Rightarrow> media option list \<Rightarrow> media option list" where
  "poison_workers workers queue = fold (\<lambda>worker q. q @ [None]) workers queue"

text \<open>
  Modelled from the spec: the worker class \<open>InstaDownloader\<close> is not among the
  sources. As the spec has it, a worker is a thread that never resumes once it has
  exited, and a join returns only when the joined worker has exited. The state of the
  pool is the set of workers alive; a run of the \<open>for\<close> loop of \<open>_join_workers\<close> is the
  list of the states in which its calls of \<open>worker.join()\<close> return, one per worker.
\<close>

fun join_each :: "worker list \<Rightarrow> worker set \<Rightarrow> worker set list \<Rightarrow> bool" where
  "join_each [] alive [] = True"
| "join_each (w # ws) alive (alive' # run) =
     (alive' \<subseteq> alive \<and> w \<notin> alive' \<and> join_each ws alive' run)"
| "join_each [] alive (alive' # run) = False"
| "join_each (w # ws) alive [] = False"

text \<open>\<open>if any(w.is_alive() for w in workers)\<close>: otherwise no call of \<open>join\<close> is made.\<close>

definition join_workers :: "worker list \<Rightarrow> worker set \<Rightarrow> worker set list \<Rightarrow> bool" where
  "join_workers workers alive run =
     (if \<exists>w\<in>set workers. w \<in> alive then join_each workers alive run else run = [])"

section \<open>Downloading\<close>

datatype error = TypeError string

text \<open>
  The \<open>destination\<close> argument: an FS URL (text, or bytes that are decoded), a
  filesystem instance, or a value that is neither.
\<close>

datatype destination = Url string | Instance fs | Neither

definition init_destfs :: "world \<Rightarrow> destination \<Rightarrow> error + (fs \<times> bool)" where
  "init_destfs W destination =
     (case destination of
        Url u \<Rightarrow> Inr (open_fs W u, True)
      | Instance d \<Rightarrow> Inr (d, False)
      | Neither \<Rightarrow> Inl (TypeError ''<destination> must be a FS URL or FS instance.''))"

text \<open>A progress bar class given by the caller is a subclass of \<open>ProgressBar\<close> or not.\<close>

datatype pbar_cls = ProgressBarClass | OtherClass

definition init_pbar :: "pbar_cls option \<Rightarrow> error + unit" where
  "init_pbar cls =
     (case cls of
        None \<Rightarrow> Inr ()
      | Some ProgressBarClass \<Rightarrow> Inr ()
      | Some OtherClass \<Rightarrow> Inl (TypeError ''pbar must implement the ProgressBar interface !''))"

text \<open>
  What a call of \<open>download\<close> does besides returning: the filesystems it opens, the
  workers it starts, the values it puts on the queue, the warnings it issues and the
  filesystems it closes.
\<close>

record effects =
  opened :: "fs list"
  started :: "worker list"
  puts :: "media option list"
  warnings :: "string list"
  closed :: "fs list"

definition no_effects :: effects where
  "no_effects = \<lparr> opened = [], started = [], puts = [], warnings = [], closed = [] \<rparr>"

text \<open>
  \<open>InstaLooter.download\<close>. \<open>pages\<close> is abstract and the media iterator is built by
  another module: \<open>medias\<close> is the sequence that iterator yields (for the time frame
  given, if any). Joining the workers changes none of the values below.
\<close>

definition download ::
  "looter \<Rightarrow> world \<Rightarrow> media list \<Rightarrow> destination \<Rightarrow> (media \<Rightarrow> bool) option \<Rightarrow> int option \<Rightarrow>
   bool \<Rightarrow> pbar_cls option \<Rightarrow> pbar_cls option \<Rightarrow> effects \<times> (error + nat)" where
  "download L W medias destination condition media_count new_only pgpbar_cls dlpbar_cls =
     (case init_destfs W destination of
        Inl e \<Rightarrow> (no_effects, Inl e)
      | Inr (d, close_destination) \<Rightarrow>
          let begun = no_effects \<lparr> opened := (if close_destination then [d] else []) \<rparr> in
          (case init_pbar pgpbar_cls of
             Inl e \<Rightarrow> (begun, Inl e)
           | Inr u \<Rightarrow>
          (case init_pbar dlpbar_cls of
             Inl e \<Rightarrow> (begun, Inl e)
           | Inr u' \<Rightarrow>
               let (workers, queue) = init_workers L;
                   r = fill_media_queue L W queue d medias media_count new_only condition;
                   medias_queued = queued r
               in (begun \<lparr> started := workers,
                           puts := poison_workers workers (put r),
                           warnings := (if medias_queued = 0 then [''No medias found.''] else []),
                           closed := (if close_destination then [d] else []) \<rparr>,
                   Inr medias_queued))))"

text \<open>
  \<open>PostLooter.download\<close>: the media iterator yields the one post \<open>self.info\<close>, which
  is the answer of \<open>get_post_info\<close> for the looter's code; one poison pill follows the
  fill, and one worker runs in the calling thread.
\<close>

definition post_download ::
  "looter \<Rightarrow> world \<Rightarrow> string \<Rightarrow> destination \<Rightarrow> (media \<Rightarrow> bool) option \<Rightarrow> int option \<Rightarrow>
   bool \<Rightarrow> effects \<times> (error + nat)" where
  "post_download L W code destination condition media_count new_only =
     (case init_destfs W destination of
        Inl e \<Rightarrow> (no_effects, Inl e)
      | Inr (d, close_destination) \<Rightarrow>
          let r = fill_media_queue L W [] d [get_post_info W code] media_count new_only condition;
              medias_queued = queued r
          in (no_effects \<lparr> opened := (if close_destination then [d] else []),
                            puts := put r @ [None] \<rparr>,
              Inr medias_queued))"

section \<open>Further medias and services\<close>

text \<open>
  A video as a page lists it and as \<open>get_post_info\<close> answers for it: the whole post
  has a \<open>location\<close> key, the listing has none. The condition is
  \<open>lambda m: m.get('location') is None\<close>.
\<close>

definition clip :: media where
  "clip = Media ''GraphVideo'' True ''clip'' [] []"

definition whole_clip :: media where
  "whole_clip = Media ''GraphVideo'' True ''clip'' [] [(''location'', ''Paris'')]"

definition no_location :: "media \<Rightarrow> bool" where
  "no_location m = (map_of (raw m) ''location'' = None)"

text \<open>A service whose answers carry more keys than the listing does.\<close>

definition detailing_world :: world where
  "detailing_world =
     \<lparr> get_post_info = (\<lambda>code. if code = ''clip'' then whole_clip
                               else Media ''GraphImage'' False code [] [(''location'', ''Paris'')]),
       open_fs = (\<lambda>url. 0),
       fs_exists = (\<lambda>d name. False) \<rparr>"

text \<open>A looter built with \<open>dump_json\<close> and \<open>extended_dump\<close> set.\<close>

definition dumping_looter :: looter where
  "dumping_looter = init False False False 2 plain_names True False True"

text \<open>A looter built with \<open>videos_only\<close> set and \<open>get_videos\<close> left unset.\<close>

definition video_looter :: looter where
  "video_looter = init False False True 2 plain_names False False False"

text \<open>A destination that holds the file of \<open>vid1\<close> only.\<close>

definition kept_video_world :: world where
  "kept_video_world = scenario_world \<lparr> fs_exists := (\<lambda>d name. name = ''vid1.jpg'') \<rparr>"

text \<open>
  A video as a page lists it, with a shortcode for which the service of the scenario
  answers with an image.
\<close>

definition reel :: media where
  "reel = Media ''GraphVideo'' True ''reel'' [] []"

section \<open>Evaluation of the definitions\<close>

lemmas scenario_defs =
  img1_def vid1_def img2_def img3_def child_img_def child_vid_def sidecar1_def
  images_only_def plain_names_def scenario_looter_def scenario_world_def scenario_def
  clip_def whole_clip_def no_location_def detailing_world_def dumping_looter_def
  video_looter_def kept_video_world_def reel_def init_def

lemmas fill_defs =
  fill_media_queue_def the_condition_def whole_post_def check_sidecar_def check_nodes_def
  drop_edge_def depleted_def reached_def set_edges_def default_condition_def

lemmas download_defs =
  download_def post_download_def init_destfs_def init_pbar_def init_workers_def
  poison_workers_def no_effects_def

section \<open>Checking the children of a sidecar\<close>

text \<open>
  Removing, for each child that fails the condition, the first entry equal to it
  leaves the children that pass, in their order.
\<close>

lemma fold_drop_edge:
  "fold (drop_edge C) ys (filter C pre @ ys) = filter C pre @ filter C ys"
proof (induction ys arbitrary: pre)
  case Nil
  then show ?case by simp
next
  case (Cons y ys)
  show ?case
  proof (cases "C y")
    case True
    have "fold (drop_edge C) (y # ys) (filter C pre @ y # ys)
        = fold (drop_edge C) ys (filter C (pre @ [y]) @ ys)"
      using True by (simp add: drop_edge_def)
    also have "\<dots> = filter C (pre @ [y]) @ filter C ys" by (rule Cons.IH)
    finally show ?thesis using True by simp
  next
    case False
    then have "remove1 y (filter C pre @ y # ys) = filter C pre @ ys"
      by (simp add: remove1_append)
    then show ?thesis using False Cons.IH [of pre] by (simp add: drop_edge_def)
  qed
qed

lemma check_nodes_filter: "check_nodes C es = filter C es"
  using fold_drop_edge [of C es "[]"] by (simp add: check_nodes_def)

lemma typename_check_sidecar: "typename (check_sidecar C m) = typename m"
  by (simp add: check_sidecar_def set_edges_def)

lemma is_video_check_sidecar: "is_video (check_sidecar C m) = is_video m"
  by (simp add: check_sidecar_def set_edges_def)

lemma edges_check_sidecar:
  "typename m = ''GraphSidecar'' \<Longrightarrow> edges (check_sidecar C m) = filter C (edges m)"
  by (simp add: check_sidecar_def set_edges_def check_nodes_filter)

lemma check_sidecar_other: "typename m \<noteq> ''GraphSidecar'' \<Longrightarrow> check_sidecar C m = m"
  by (simp add: check_sidecar_def)

section \<open>One turn of the loop\<close>

lemma reached_mono: "reached mc a \<Longrightarrow> a \<le> b \<Longrightarrow> reached mc b"
  by (auto simp: reached_def split: option.splits)

lemma fill_loop_Cons:
  "fill_loop L W d mc no C (m # ms) q n =
     (if \<not> accepted L W C m then fill_loop L W d mc no C ms q n
      else if halting L W d no C m then \<lparr> put = q, queued = n, unread = ms \<rparr>
      else if reached mc (Suc n)
      then \<lparr> put = q @ [Some (staged L W C m)], queued = Suc n, unread = ms \<rparr>
      else fill_loop L W d mc no C ms (q @ [Some (staged L W C m)]) (Suc n))"
  by (simp add: halting_def accepted_def staged_def Let_def)

section \<open>The loop over a whole sequence\<close>

text \<open>
  Over a stretch of the sequence that holds no halting media and does not reach the
  count, the loop puts the staged form of each accepted media and goes on.
\<close>

lemma fill_loop_pass:
  assumes "\<forall>m\<in>set pre. \<not> halting L W d no C m"
    and "\<not> reached mc (n + length (filter (accepted L W C) pre))"
  shows "fill_loop L W d mc no C (pre @ rest) q n
       = fill_loop L W d mc no C rest
           (q @ map (\<lambda>a. Some (staged L W C a)) (filter (accepted L W C) pre))
           (n + length (filter (accepted L W C) pre))"
  using assms
proof (induction pre arbitrary: q n)
  case Nil
  then show ?case by simp
next
  case (Cons m pre)
  show ?case
  proof (cases "accepted L W C m")
    case False
    then show ?thesis
      using Cons.IH [of n q] Cons.prems by (simp add: fill_loop_Cons del: fill_loop.simps)
  next
    case True
    have nh: "\<not> halting L W d no C m" using Cons.prems(1) by simp
    have nr: "\<not> reached mc (Suc n + length (filter (accepted L W C) pre))"
      using Cons.prems(2) True by simp
    then have "\<not> reached mc (Suc n)" using reached_mono [of mc "Suc n"] by auto
    then have "fill_loop L W d mc no C ((m # pre) @ rest) q n
        = fill_loop L W d mc no C (pre @ rest) (q @ [Some (staged L W C m)]) (Suc n)"
      using True nh by (simp add: fill_loop_Cons del: fill_loop.simps)
    also have "\<dots> = fill_loop L W d mc no C rest
           ((q @ [Some (staged L W C m)])
              @ map (\<lambda>a. Some (staged L W C a)) (filter (accepted L W C) pre))
           (Suc n + length (filter (accepted L W C) pre))"
      using Cons.prems(1) nr by (intro Cons.IH) simp_all
    finally show ?thesis using True by simp
  qed
qed

text \<open>Whatever the loop adds to the queue is the staged form of an accepted media.\<close>

lemma fill_loop_put_origin:
  "Some x \<in> set (put (fill_loop L W d mc no C ms q n)) \<Longrightarrow> Some x \<notin> set q \<Longrightarrow>
   \<exists>m\<in>set ms. accepted L W C m \<and> x = staged L W C m"
proof (induction ms arbitrary: q n)
  case Nil
  then show ?case by simp
next
  case (Cons m ms)
  show ?case
  proof (cases "x = staged L W C m \<and> accepted L W C m")
    case True
    then show ?thesis by auto
  next
    case False
    then have "Some x \<notin> set (q @ [Some (staged L W C m)]) \<or> \<not> accepted L W C m"
      using Cons.prems(2) by auto
    then have "\<exists>m\<in>set ms. accepted L W C m \<and> x = staged L W C m"
      using Cons.prems Cons.IH [of q n] Cons.IH [of "q @ [Some (staged L W C m)]" "Suc n"]
      by (auto simp add: fill_loop_Cons simp del: fill_loop.simps split: if_splits)
    then show ?thesis by auto
  qed
qed

text \<open>The medias that fail the condition can be struck from the sequence.\<close>

lemma fill_loop_filter:
  "put (fill_loop L W d mc no C ms q n) = put (fill_loop L W d mc no C (filter C ms) q n)
   \<and> queued (fill_loop L W d mc no C ms q n)
     = queued (fill_loop L W d mc no C (filter C ms) q n)"
proof (induction ms arbitrary: q n)
  case Nil
  then show ?case by simp
next
  case (Cons m ms)
  show ?case
  proof (cases "C m")
    case False
    then have "\<not> accepted L W C m" by (simp add: accepted_def)
    then show ?thesis
      using False Cons.IH [of q n] by (simp add: fill_loop_Cons del: fill_loop.simps)
  next
    case True
    then show ?thesis
      using Cons.IH [of q n] Cons.IH [of "q @ [Some (staged L W C m)]" "Suc n"]
      by (simp add: fill_loop_Cons del: fill_loop.simps)
  qed
qed

text \<open>
  More generally, the medias outside any set that holds all accepted medias can be
  struck from the sequence.
\<close>

lemma fill_loop_strike:
  assumes "\<And>m. accepted L W C m \<Longrightarrow> P m"
  shows "put (fill_loop L W d mc no C ms q n) = put (fill_loop L W d mc no C (filter P ms) q n)
       \<and> queued (fill_loop L W d mc no C ms q n)
         = queued (fill_loop L W d mc no C (filter P ms) q n)"
proof (induction ms arbitrary: q n)
  case Nil
  then show ?case by simp
next
  case (Cons m ms)
  show ?case
  proof (cases "P m")
    case False
    then have "\<not> accepted L W C m" using assms by blast
    then show ?thesis
      using False Cons.IH [of q n] by (simp add: fill_loop_Cons del: fill_loop.simps)
  next
    case True
    then show ?thesis
      using Cons.IH [of q n] Cons.IH [of "q @ [Some (staged L W C m)]" "Suc n"]
      by (simp add: fill_loop_Cons del: fill_loop.simps)
  qed
qed

text \<open>
  What the loop puts are the staged forms of the first accepted medias, and it counts
  one for each.
\<close>

lemma fill_loop_shape:
  "\<exists>k\<le>length (filter (accepted L W C) ms).
     put (fill_loop L W d mc no C ms q n)
       = q @ map (\<lambda>a. Some (staged L W C a)) (take k (filter (accepted L W C) ms))
     \<and> queued (fill_loop L W d mc no C ms q n) = n + k"
proof (induction ms arbitrary: q n)
  case Nil
  then show ?case by simp
next
  case (Cons m ms)
  show ?case
  proof (cases "accepted L W C m")
    case False
    then show ?thesis
      using Cons.IH [of q n] by (simp add: fill_loop_Cons del: fill_loop.simps)
  next
    case acc: True
    show ?thesis
    proof (cases "halting L W d no C m")
      case True
      then have "put (fill_loop L W d mc no C (m # ms) q n)
            = q @ map (\<lambda>a. Some (staged L W C a)) (take 0 (filter (accepted L W C) (m # ms)))
          \<and> queued (fill_loop L W d mc no C (m # ms) q n) = n + 0"
        using acc by (simp add: fill_loop_Cons del: fill_loop.simps)
      then show ?thesis by blast
    next
      case nh: False
      show ?thesis
      proof (cases "reached mc (Suc n)")
        case True
        then have "put (fill_loop L W d mc no C (m # ms) q n)
              = q @ map (\<lambda>a. Some (staged L W C a)) (take 1 (filter (accepted L W C) (m # ms)))
            \<and> queued (fill_loop L W d mc no C (m # ms) q n) = n + 1"
          using acc nh by (simp add: fill_loop_Cons del: fill_loop.simps)
        moreover have "1 \<le> length (filter (accepted L W C) (m # ms))" using acc by simp
        ultimately show ?thesis by blast
      next
        case False
        obtain k where k: "k \<le> length (filter (accepted L W C) ms)"
            "put (fill_loop L W d mc no C ms (q @ [Some (staged L W C m)]) (Suc n))
              = (q @ [Some (staged L W C m)])
                @ map (\<lambda>a. Some (staged L W C a)) (take k (filter (accepted L W C) ms))"
            "queued (fill_loop L W d mc no C ms (q @ [Some (staged L W C m)]) (Suc n)) = Suc n + k"
          using Cons.IH [of "q @ [Some (staged L W C m)]" "Suc n"] by blast
        have "put (fill_loop L W d mc no C (m # ms) q n)
              = q @ map (\<lambda>a. Some (staged L W C a))
                      (take (Suc k) (filter (accepted L W C) (m # ms)))
            \<and> queued (fill_loop L W d mc no C (m # ms) q n) = n + Suc k"
          using acc nh False k(2,3) by (simp add: fill_loop_Cons del: fill_loop.simps)
        moreover have "Suc k \<le> length (filter (accepted L W C) (m # ms))"
          using acc k(1) by simp
        ultimately show ?thesis by blast
      qed
    qed
  qed
qed

text \<open>The looter's \<open>extended_dump\<close> attribute is not read by the fill.\<close>

lemma fill_loop_extended_dump:
  "fill_loop (L\<lparr>extended_dump := b\<rparr>) W d mc no C ms q n = fill_loop L W d mc no C ms q n"
  by (induction ms arbitrary: q n) (simp_all add: whole_post_def Let_def)

lemma the_condition_extended_dump:
  "the_condition (L\<lparr>extended_dump := b\<rparr>) condition = the_condition L condition"
  by (cases condition) (simp_all add: the_condition_def default_condition_def fun_eq_iff)

lemma fill_media_queue_extended_dump:
  "fill_media_queue (L\<lparr>extended_dump := b\<rparr>) W queue d ms mc no condition
   = fill_media_queue L W queue d ms mc no condition"
  by (simp add: fill_media_queue_def fill_loop_extended_dump the_condition_extended_dump)

section \<open>The scenario\<close>

text \<open>
  C4. On \<open>[img1, vid1, img2(existing), img3, sidecar1{child_img, child_vid}]\<close> with the
  images-only condition, \<open>new_only = False\<close> and \<open>media_count = 10\<close>, the queue
  receives \<open>img1\<close>, \<open>img2\<close>, \<open>img3\<close> and \<open>sidecar1\<close> with its image child alone, in
  that order, and the returned count is 4: \<open>vid1\<close> fails the condition, the video
  child is removed, and \<open>img2\<close> is queued although its file exists.
\<close>

theorem scenario_fills_four:
  "fill_media_queue scenario_looter scenario_world [] 0 scenario (Some 10) False (Some images_only)
   = \<lparr> put = [Some img1, Some img2, Some img3,
              Some (Media ''GraphSidecar'' False ''sidecar1'' [child_img] [])],
       queued = 4, unread = [] \<rparr>"
  by (simp add: scenario_defs fill_defs)

theorem scenario_fills_four_witness:
  "queued (fill_media_queue scenario_looter scenario_world [] 0 scenario (Some 10) False
     (Some images_only)) = 4
   \<and> length (put (fill_media_queue scenario_looter scenario_world [] 0 scenario (Some 10) False
     (Some images_only))) = 4"
  using scenario_fills_four by simp

lemma scenario_run:
  "fill_media_queue scenario_looter scenario_world [] 0 scenario (Some 10) False (Some images_only)
   = \<lparr> put = [Some img1, Some img2, Some img3,
              Some (Media ''GraphSidecar'' False ''sidecar1'' [child_img] [])],
       queued = 4, unread = [] \<rparr>"
  by (simp add: scenario_defs fill_defs)

section \<open>What is put on the queue\<close>

text \<open>
  C1, as stated, fails: the condition is applied to the media as the iterator yields
  it, and what is queued is the answer of \<open>get_post_info\<close> wherever the whole post is
  required. With the condition "has no location", the listing of a video passes, and
  the whole post queued in its place, which is no sidecar, has a location.
\<close>

theorem queued_media_fails_condition:
  "put (fill_media_queue scenario_looter detailing_world [] 0 [clip] None False (Some no_location))
     = [Some whole_clip]
   \<and> no_location clip
   \<and> typename whole_clip \<noteq> ''GraphSidecar''
   \<and> \<not> no_location whole_clip"
  by (simp add: scenario_defs fill_defs)

text \<open>
  C1, amended. Every media that \<open>_fill_media_queue\<close> puts on the queue stems from a
  media of the sequence that satisfies the condition \<open>C\<close>: it is that media itself, or
  the whole post fetched for it, with its children checked when it is a sidecar. A
  queued media that was not fetched anew and is no sidecar satisfies \<open>C\<close>. A queued
  sidecar holds exactly those children of the whole post that satisfy \<open>C\<close>, in their
  order, so never more than before, and at least one. What is put are, in order, the
  forms of the first medias of the sequence that pass \<open>C\<close> and are not sidecars left
  without children, as many as the returned count says: the count is the number of
  medias put. A sidecar left without children is neither queued nor counted:
  striking such medias from the sequence changes neither the queue nor the count.
\<close>

theorem queued_media_origin:
  assumes "C = the_condition L condition"
    and "r = fill_media_queue L W queue d ms mc no condition"
  shows "(\<forall>x. Some x \<in> set (put r) \<and> Some x \<notin> set queue \<longrightarrow>
           (\<exists>m\<in>set ms. C m \<and> x = check_sidecar C (whole_post L W m)
              \<and> (whole_post L W m = m \<and> typename m \<noteq> ''GraphSidecar'' \<longrightarrow> C x)
              \<and> (typename x = ''GraphSidecar'' \<longrightarrow>
                   edges x = filter C (edges (whole_post L W m)) \<and> edges x \<noteq> []
                   \<and> length (edges x) \<le> length (edges (whole_post L W m)))))
       \<and> put r = queue @ map (\<lambda>m. Some (check_sidecar C (whole_post L W m)))
                    (take (queued r)
                      (filter (\<lambda>m. C m \<and> \<not> depleted (check_sidecar C (whole_post L W m))) ms))
       \<and> queued r
           \<le> length (filter (\<lambda>m. C m \<and> \<not> depleted (check_sidecar C (whole_post L W m))) ms)
       \<and> length (put r) = length queue + queued r
       \<and> put r = put (fill_media_queue L W queue d
                    (filter (\<lambda>m. \<not> depleted (check_sidecar C (whole_post L W m))) ms)
                    mc no condition)
       \<and> queued r = queued (fill_media_queue L W queue d
                    (filter (\<lambda>m. \<not> depleted (check_sidecar C (whole_post L W m))) ms)
                    mc no condition)"
proof -
  have r: "r = fill_loop L W d mc no C ms queue 0"
    using assms by (simp add: fill_media_queue_def)
  have acc: "accepted L W C = (\<lambda>m. C m \<and> \<not> depleted (check_sidecar C (whole_post L W m)))"
    by (simp add: accepted_def staged_def fun_eq_iff)
  have stg: "staged L W C = (\<lambda>m. check_sidecar C (whole_post L W m))"
    by (simp add: staged_def fun_eq_iff)
  have origin: "\<exists>m\<in>set ms. C m \<and> x = check_sidecar C (whole_post L W m)
              \<and> (whole_post L W m = m \<and> typename m \<noteq> ''GraphSidecar'' \<longrightarrow> C x)
              \<and> (typename x = ''GraphSidecar'' \<longrightarrow>
                   edges x = filter C (edges (whole_post L W m)) \<and> edges x \<noteq> []
                   \<and> length (edges x) \<le> length (edges (whole_post L W m)))"
    if "Some x \<in> set (put r)" "Some x \<notin> set queue" for x
  proof -
    from that obtain m where m: "m \<in> set ms" "accepted L W C m" "x = staged L W C m"
      using fill_loop_put_origin [of x L W d mc no C ms queue 0] r by auto
    have x: "x = check_sidecar C (whole_post L W m)" using m(3) by (simp add: staged_def)
    have c: "C m" using m(2) by (simp add: accepted_def)
    have same: "C x" if "whole_post L W m = m" "typename m \<noteq> ''GraphSidecar''"
      using that x c by (simp add: check_sidecar_other)
    have side: "edges x = filter C (edges (whole_post L W m)) \<and> edges x \<noteq> []
        \<and> length (edges x) \<le> length (edges (whole_post L W m))"
      if "typename x = ''GraphSidecar''"
    proof -
      have t: "typename (whole_post L W m) = ''GraphSidecar''"
        using that x by (simp add: typename_check_sidecar)
      then have e: "edges x = filter C (edges (whole_post L W m))"
        using x by (simp add: edges_check_sidecar)
      have "\<not> depleted x" using m(2,3) by (simp add: accepted_def)
      then have "edges x \<noteq> []" using that by (simp add: depleted_def)
      then show ?thesis using e by simp
    qed
    show ?thesis using m(1) c x same side by blast
  qed
  obtain k where k: "k \<le> length (filter (accepted L W C) ms)"
      "put r = queue @ map (\<lambda>a. Some (staged L W C a)) (take k (filter (accepted L W C) ms))"
      "queued r = 0 + k"
    using fill_loop_shape [of L W C ms d mc no queue 0] r by auto
  have shape: "put r = queue @ map (\<lambda>m. Some (check_sidecar C (whole_post L W m)))
                    (take (queued r)
                      (filter (\<lambda>m. C m \<and> \<not> depleted (check_sidecar C (whole_post L W m))) ms))"
    using k(2,3) by (simp add: acc stg)
  have bound: "queued r
      \<le> length (filter (\<lambda>m. C m \<and> \<not> depleted (check_sidecar C (whole_post L W m))) ms)"
    using k(1,3) by (simp add: acc)
  have len: "length (put r) = length queue + queued r"
    using k by simp
  have "\<And>m. accepted L W C m \<Longrightarrow> \<not> depleted (check_sidecar C (whole_post L W m))"
    by (simp add: acc)
  then have strike: "put r = put (fill_loop L W d mc no C
          (filter (\<lambda>m. \<not> depleted (check_sidecar C (whole_post L W m))) ms) queue 0)
      \<and> queued r = queued (fill_loop L W d mc no C
          (filter (\<lambda>m. \<not> depleted (check_sidecar C (whole_post L W m))) ms) queue 0)"
    unfolding r by (rule fill_loop_strike)
  then have strike': "put r = put (fill_media_queue L W queue d
                    (filter (\<lambda>m. \<not> depleted (check_sidecar C (whole_post L W m))) ms)
                    mc no condition)
       \<and> queued r = queued (fill_media_queue L W queue d
                    (filter (\<lambda>m. \<not> depleted (check_sidecar C (whole_post L W m))) ms)
                    mc no condition)"
    using assms(1) by (simp add: fill_media_queue_def)
  show ?thesis using origin shape bound len strike' by blast
qed

theorem queued_media_origin_witness:
  "(\<exists>m\<in>set scenario. images_only m
      \<and> Media ''GraphSidecar'' False ''sidecar1'' [child_img] []
          = check_sidecar images_only (whole_post scenario_looter scenario_world m)
      \<and> (whole_post scenario_looter scenario_world m = m \<and> typename m \<noteq> ''GraphSidecar''
           \<longrightarrow> images_only (Media ''GraphSidecar'' False ''sidecar1'' [child_img] []))
      \<and> (typename (Media ''GraphSidecar'' False ''sidecar1'' [child_img] []) = ''GraphSidecar'' \<longrightarrow>
           edges (Media ''GraphSidecar'' False ''sidecar1'' [child_img] [])
             = filter images_only (edges (whole_post scenario_looter scenario_world m))
           \<and> edges (Media ''GraphSidecar'' False ''sidecar1'' [child_img] []) \<noteq> []
           \<and> length (edges (Media ''GraphSidecar'' False ''sidecar1'' [child_img] []))
               \<le> length (edges (whole_post scenario_looter scenario_world m))))
   \<and> length (put (fill_media_queue scenario_looter scenario_world [] 0 scenario (Some 10) False
        (Some images_only)))
       = length ([] :: media option list)
         + queued (fill_media_queue scenario_looter scenario_world [] 0 scenario (Some 10) False
             (Some images_only))"
proof -
  have c: "images_only = the_condition scenario_looter (Some images_only)"
    by (simp add: the_condition_def)
  note t = queued_media_origin [OF c refl, of scenario_world "[]" 0 scenario "Some 10" False]
  have "Some (Media ''GraphSidecar'' False ''sidecar1'' [child_img] [])
      \<in> set (put (fill_media_queue scenario_looter scenario_world [] 0 scenario (Some 10) False
            (Some images_only)))
    \<and> Some (Media ''GraphSidecar'' False ''sidecar1'' [child_img] []) \<notin> set []"
    by (simp add: scenario_run)
  then show ?thesis using t by blast
qed

section \<open>The condition and sidecars\<close>

text \<open>
  C6, as stated, fails: the filter applies the condition to every media of the
  sequence before anything else, sidecars included. Under the videos condition the
  sidecar of the scenario fails (its own \<open>is_video\<close> is false) and is rejected at once,
  although checking its children would leave the video child.
\<close>

theorem failing_sidecar_is_rejected:
  "typename sidecar1 = ''GraphSidecar''
   \<and> \<not> is_video sidecar1
   \<and> check_nodes is_video (edges (whole_post scenario_looter scenario_world sidecar1)) = [child_vid]
   \<and> fill_media_queue scenario_looter scenario_world [] 0 [sidecar1] None False (Some is_video)
       = \<lparr> put = [], queued = 0, unread = [] \<rparr>"
  by (simp add: scenario_defs fill_defs)

text \<open>
  C6, amended. Failing the condition causes immediate rejection of every media,
  sidecar or not: the medias that fail it can be struck from the sequence without
  changing what is queued or counted. A media whose whole post is a sidecar is queued
  (when \<open>new_only\<close> is unset) exactly when it passes the condition itself and at least
  one of its children passes, and then with those children alone.
\<close>

theorem condition_applies_to_sidecars:
  assumes "C = the_condition L condition"
  shows "put (fill_media_queue L W queue d ms mc no condition)
           = put (fill_media_queue L W queue d (filter C ms) mc no condition)
       \<and> queued (fill_media_queue L W queue d ms mc no condition)
           = queued (fill_media_queue L W queue d (filter C ms) mc no condition)
       \<and> (typename (whole_post L W m) = ''GraphSidecar'' \<longrightarrow>
            put (fill_media_queue L W queue d [m] mc False condition)
              = (if C m \<and> (\<exists>c\<in>set (edges (whole_post L W m)). C c)
                 then queue @ [Some (set_edges (filter C (edges (whole_post L W m)))
                                      (whole_post L W m))]
                 else queue))"
proof -
  have "typename (whole_post L W m) = ''GraphSidecar'' \<Longrightarrow>
     put (fill_loop L W d mc False C [m] queue 0)
       = (if C m \<and> (\<exists>c\<in>set (edges (whole_post L W m)). C c)
          then queue @ [Some (set_edges (filter C (edges (whole_post L W m))) (whole_post L W m))]
          else queue)"
    by (auto simp add: Let_def check_sidecar_def check_nodes_filter depleted_def set_edges_def
        filter_empty_conv)
  then show ?thesis
    unfolding fill_media_queue_def Let_def assms [symmetric]
    using fill_loop_filter [of L W d mc no C ms queue 0] by blast
qed

theorem condition_applies_to_sidecars_witness:
  "put (fill_media_queue scenario_looter scenario_world [] 0 scenario (Some 10) False
         (Some images_only))
     = put (fill_media_queue scenario_looter scenario_world [] 0 (filter images_only scenario)
         (Some 10) False (Some images_only))
   \<and> queued (fill_media_queue scenario_looter scenario_world [] 0 scenario (Some 10) False
         (Some images_only))
     = queued (fill_media_queue scenario_looter scenario_world [] 0 (filter images_only scenario)
         (Some 10) False (Some images_only))
   \<and> put (fill_media_queue scenario_looter scenario_world [] 0 [sidecar1] (Some 10) False
         (Some images_only))
     = [Some (Media ''GraphSidecar'' False ''sidecar1'' [child_img] [])]"
proof -
  have c: "images_only = the_condition scenario_looter (Some images_only)"
    by (simp add: the_condition_def)
  have s: "typename (whole_post scenario_looter scenario_world sidecar1) = ''GraphSidecar''"
    by (simp add: scenario_defs fill_defs)
  have e: "(if images_only sidecar1
          \<and> (\<exists>c\<in>set (edges (whole_post scenario_looter scenario_world sidecar1)). images_only c)
       then [] @ [Some (set_edges (filter images_only
                    (edges (whole_post scenario_looter scenario_world sidecar1)))
                    (whole_post scenario_looter scenario_world sidecar1))]
       else [])
      = [Some (Media ''GraphSidecar'' False ''sidecar1'' [child_img] [])]"
    by (simp add: scenario_defs fill_defs)
  show ?thesis
    using condition_applies_to_sidecars [OF c, of scenario_world "[]" 0 scenario "Some 10" False
        sidecar1] s e
    by simp
qed

section \<open>The extended dump\<close>

text \<open>
  C5. The claim: with \<open>extended_dump\<close> set, every media is replaced by the answer of
  \<open>get_post_info\<close> before it is queued. The code: a looter built with \<open>extended_dump\<close>
  (and \<open>dump_json\<close>) set queues the listing of a \<open>GraphImage\<close> as it is when the name
  generator does not ask for the whole post, although the service would answer with
  more.
\<close>

theorem extended_dump_is_ignored:
  "extended_dump dumping_looter
   \<and> get_post_info detailing_world (shortcode img1) \<noteq> img1
   \<and> put (fill_media_queue dumping_looter detailing_world [] 0 [img1] None False None)
       = [Some img1]"
  by (simp add: scenario_defs fill_defs)

theorem extended_dump_is_ignored_witness:
  "Some (get_post_info detailing_world (shortcode img1))
     \<notin> set (put (fill_media_queue dumping_looter detailing_world [] 0 [img1] None False None))"
  using extended_dump_is_ignored by simp

section \<open>The default condition\<close>

text \<open>
  C10, as stated, fails in its last clause: the condition is applied to the media as
  listed, and what is queued for a video is the answer of \<open>get_post_info\<close>, whose
  \<open>is_video\<close> is not looked at. A looter built with \<open>videos_only\<close> accepts the listed
  video \<open>reel\<close> and queues the post the service answers with, which is an image.
\<close>

theorem videos_only_queues_refetched_image:
  "videos_only video_looter
   \<and> is_video reel
   \<and> put (fill_media_queue video_looter scenario_world [] 0 [reel] None False None)
       = [Some (Media ''GraphImage'' False ''reel'' [] [])]
   \<and> \<not> is_video (Media ''GraphImage'' False ''reel'' [] [])"
  by (simp add: scenario_defs fill_defs)

text \<open>
  C10, amended. A looter constructed with \<open>videos_only\<close> has \<open>get_videos\<close> set
  whatever the \<open>get_videos\<close> argument was. With no condition given, the condition
  built from a looter's flags is \<open>is_video\<close> when \<open>videos_only\<close> is set, its negation
  when \<open>get_videos\<close> is unset, and true of everything otherwise. So for a looter
  constructed with \<open>videos_only\<close> no media of the sequence whose \<open>is_video\<close> is false
  is accepted: such medias can be struck from the sequence without changing the queue
  or the count, and every queued media is, or is the whole post fetched for, a media
  of the sequence whose \<open>is_video\<close> is true; where no other post was fetched in its
  place, the queued media has \<open>is_video\<close> true itself.
\<close>

theorem videos_only_excludes_images:
  assumes "L = init am gv True j ng dj dn ed"
  shows "get_videos L \<and> videos_only L
       \<and> the_condition K None m
           = (if videos_only K then is_video m else if \<not> get_videos K then \<not> is_video m else True)
       \<and> put (fill_media_queue L W queue d ms mc no None)
           = put (fill_media_queue L W queue d (filter is_video ms) mc no None)
       \<and> queued (fill_media_queue L W queue d ms mc no None)
           = queued (fill_media_queue L W queue d (filter is_video ms) mc no None)
       \<and> (Some x \<in> set (put (fill_media_queue L W [] d ms mc no None)) \<longrightarrow>
            (\<exists>m\<in>set ms. is_video m \<and> x = check_sidecar is_video (whole_post L W m)
               \<and> (whole_post L W m = m \<longrightarrow> is_video x)))"
proof -
  have c: "the_condition L None = is_video"
    using assms by (simp add: the_condition_def default_condition_def init_def fun_eq_iff)
  have filt: "put (fill_media_queue L W queue d ms mc no None)
           = put (fill_media_queue L W queue d (filter is_video ms) mc no None)
       \<and> queued (fill_media_queue L W queue d ms mc no None)
           = queued (fill_media_queue L W queue d (filter is_video ms) mc no None)"
    unfolding fill_media_queue_def Let_def c
    using fill_loop_filter [of L W d mc no is_video ms queue 0] by blast
  have orig: "\<exists>m\<in>set ms. is_video m \<and> x = check_sidecar is_video (whole_post L W m)
               \<and> (whole_post L W m = m \<longrightarrow> is_video x)"
    if "Some x \<in> set (put (fill_media_queue L W [] d ms mc no None))"
  proof -
    from that obtain m where m: "m \<in> set ms" "accepted L W is_video m"
        "x = staged L W is_video m"
      using fill_loop_put_origin [of x L W d mc no is_video ms "[]" 0]
      unfolding fill_media_queue_def Let_def c by auto
    have v: "is_video m" using m(2) by (simp add: accepted_def)
    have x: "x = check_sidecar is_video (whole_post L W m)"
      using m(3) by (simp add: staged_def)
    have "is_video x" if "whole_post L W m = m"
      using that v x by (simp add: is_video_check_sidecar)
    then show ?thesis using m(1) v x by blast
  qed
  have flags: "get_videos L \<and> videos_only L" using assms by (simp add: init_def)
  have cases: "the_condition K None m
           = (if videos_only K then is_video m else if \<not> get_videos K then \<not> is_video m else True)"
    by (simp add: the_condition_def default_condition_def)
  show ?thesis using flags cases filt orig by blast
qed

theorem videos_only_excludes_images_witness:
  "get_videos video_looter \<and> videos_only video_looter
   \<and> the_condition scenario_looter None img1
   \<and> put (fill_media_queue video_looter scenario_world [] 0 scenario None False None)
       = put (fill_media_queue video_looter scenario_world [] 0 [vid1] None False None)
   \<and> queued (fill_media_queue video_looter scenario_world [] 0 scenario None False None)
       = queued (fill_media_queue video_looter scenario_world [] 0 [vid1] None False None)
   \<and> (\<exists>m\<in>set scenario. is_video m
         \<and> vid1 = check_sidecar is_video (whole_post video_looter scenario_world m)
         \<and> (whole_post video_looter scenario_world m = m \<longrightarrow> is_video vid1))"
proof -
  have l: "video_looter = init False False True 2 plain_names False False False"
    by (simp add: video_looter_def)
  have p: "Some vid1
      \<in> set (put (fill_media_queue video_looter scenario_world [] 0 scenario None False None))"
    by (simp add: scenario_defs fill_defs)
  have f: "filter is_video scenario = [vid1]" by (simp add: scenario_defs)
  have i: "(if videos_only scenario_looter then is_video img1
            else if \<not> get_videos scenario_looter then \<not> is_video img1 else True)"
    by (simp add: scenario_defs)
  show ?thesis
    using videos_only_excludes_images [OF l, of scenario_looter img1 scenario_world "[]" 0 scenario
        None False vid1] p f i
    by simp
qed

section \<open>Halting at an existing file\<close>

text \<open>
  C2, as stated, fails in two ways. The existence check is reached only by a media
  that has passed the condition: with the images-only condition and \<open>new_only\<close> set, a
  video whose file exists at position 0 does not halt the fill, and the image after it
  is queued. And the count is not the number of matching medias before the existing
  one when \<open>media_count\<close> is reached first: with \<open>media_count = 1\<close> the fill stops
  after \<open>img1\<close>, two matching medias standing before the existing \<open>img2\<close>.
\<close>

theorem existing_media_need_not_halt:
  "fs_exists kept_video_world 0 (file_name (namegen scenario_looter) vid1)
   \<and> fill_media_queue scenario_looter kept_video_world [] 0 [vid1, img1] None True
        (Some images_only)
       = \<lparr> put = [Some img1], queued = 1, unread = [] \<rparr>
   \<and> fill_media_queue scenario_looter scenario_world [] 0 [img1, img3, img2] (Some 1) True
        (Some images_only)
       = \<lparr> put = [Some img1], queued = 1, unread = [img3, img2] \<rparr>"
  by (simp add: scenario_defs fill_defs)

text \<open>
  C2, amended. Let \<open>new_only\<close> be set, and let the media at position \<open>p\<close> be the first
  of the sequence that reaches the existence check (it passes the condition and is
  not a sidecar left without children) and whose file exists in the destination;
  let \<open>media_count\<close> be \<open>None\<close> or greater than the number of medias accepted before
  \<open>p\<close>. Then the fill halts at \<open>p\<close>: that media is not queued, nothing after it is
  read, the queue has received the medias accepted before \<open>p\<close>, in order, and the
  returned count is their number. On the scenario with the images-only condition,
  \<open>img1\<close> alone is accepted.
\<close>

theorem halts_at_first_existing:
  assumes "C = the_condition L condition"
    and "ms = pre @ x # post"
    and "halting L W d True C x"
    and "\<forall>m\<in>set pre. \<not> halting L W d True C m"
    and "\<not> reached mc (length (filter (accepted L W C) pre))"
  shows "fill_media_queue L W queue d ms mc True condition
       = \<lparr> put = queue @ map (\<lambda>m. Some (staged L W C m)) (filter (accepted L W C) pre),
           queued = length (filter (accepted L W C) pre),
           unread = post \<rparr>"
proof -
  have "fill_loop L W d mc True C (pre @ x # post) queue 0
      = fill_loop L W d mc True C (x # post)
          (queue @ map (\<lambda>m. Some (staged L W C m)) (filter (accepted L W C) pre))
          (0 + length (filter (accepted L W C) pre))"
    using assms(4,5) by (intro fill_loop_pass) simp_all
  also have "\<dots> = \<lparr> put = queue @ map (\<lambda>m. Some (staged L W C m)) (filter (accepted L W C) pre),
           queued = length (filter (accepted L W C) pre), unread = post \<rparr>"
    using assms(3) by (simp add: fill_loop_Cons halting_def del: fill_loop.simps)
  finally show ?thesis
    unfolding fill_media_queue_def Let_def assms(1) [symmetric] assms(2) .
qed

theorem halts_at_first_existing_witness:
  "fill_media_queue scenario_looter scenario_world [] 0 scenario (Some 10) True (Some images_only)
   = \<lparr> put = [Some img1], queued = 1, unread = [img3, sidecar1] \<rparr>"
proof -
  have c: "images_only = the_condition scenario_looter (Some images_only)"
    by (simp add: the_condition_def)
  have s: "scenario = [img1, vid1] @ img2 # [img3, sidecar1]" by (simp add: scenario_def)
  have h: "halting scenario_looter scenario_world 0 True images_only img2"
    by (simp add: halting_def accepted_def staged_def scenario_defs fill_defs)
  have n: "\<forall>m\<in>set [img1, vid1]. \<not> halting scenario_looter scenario_world 0 True images_only m"
    by (simp add: halting_def accepted_def staged_def scenario_defs fill_defs)
  have a: "filter (accepted scenario_looter scenario_world images_only) [img1, vid1] = [img1]"
    by (simp add: accepted_def staged_def scenario_defs fill_defs)
  have r: "\<not> reached (Some 10)
      (length (filter (accepted scenario_looter scenario_world images_only) [img1, vid1]))"
    unfolding a by (simp add: reached_def)
  have g: "staged scenario_looter scenario_world images_only img1 = img1"
    by (simp add: staged_def scenario_defs fill_defs)
  show ?thesis
    using halts_at_first_existing [OF c s h n r, of "[]", unfolded a] by (simp add: g)
qed

section \<open>Stopping at the media count\<close>

text \<open>
  C3, as stated, fails. With \<open>new_only\<close> set the fill halts at an existing file
  whatever the count asked for: on \<open>[img2(existing), img3]\<close> with \<open>media_count = 1\<close>
  nothing is queued, two matching medias being there. And the count is compared only
  after a media has been queued, so \<open>media_count = 0\<close> queues the first accepted media
  and returns 1.
\<close>

theorem media_count_not_always_met:
  "fill_media_queue scenario_looter scenario_world [] 0 [img2, img3] (Some 1) True
        (Some images_only)
       = \<lparr> put = [], queued = 0, unread = [img3] \<rparr>
   \<and> fill_media_queue scenario_looter scenario_world [] 0 [img1, img3] (Some 0) False
        (Some images_only)
       = \<lparr> put = [Some img1], queued = 1, unread = [img3] \<rparr>"
  by (simp add: scenario_defs fill_defs)

text \<open>
  C3, amended. For every \<open>k \<ge> 1\<close>: let \<open>media_count = k\<close>, let the sequence hold at
  least \<open>k\<close> accepted medias (medias that pass the condition and are not sidecars left
  without children), the \<open>k\<close>-th of them being \<open>x\<close>, and let no media up to \<open>x\<close> halt
  the fill (\<open>new_only\<close> is unset, or none of them has its file in the destination).
  Then the returned count is exactly \<open>k\<close>, the queue has received the first \<open>k\<close>
  accepted medias in order, \<open>x\<close> last, and the medias after \<open>x\<close> are left unread.
\<close>

theorem stops_at_media_count:
  assumes "C = the_condition L condition"
    and "ms = pre @ x # post"
    and "accepted L W C x"
    and "\<forall>m\<in>set (pre @ [x]). \<not> halting L W d no C m"
    and "k = int (length (filter (accepted L W C) pre)) + 1"
  shows "fill_media_queue L W queue d ms (Some k) no condition
       = \<lparr> put = queue @ map (\<lambda>m. Some (staged L W C m)) (filter (accepted L W C) pre)
                 @ [Some (staged L W C x)],
           queued = length (filter (accepted L W C) pre) + 1,
           unread = post \<rparr>
       \<and> int (queued (fill_media_queue L W queue d ms (Some k) no condition)) = k"
proof -
  have "fill_loop L W d (Some k) no C (pre @ x # post) queue 0
      = fill_loop L W d (Some k) no C (x # post)
          (queue @ map (\<lambda>m. Some (staged L W C m)) (filter (accepted L W C) pre))
          (0 + length (filter (accepted L W C) pre))"
    using assms(4,5) by (intro fill_loop_pass) (simp_all add: reached_def)
  also have "\<dots> = \<lparr> put = queue @ map (\<lambda>m. Some (staged L W C m)) (filter (accepted L W C) pre)
                 @ [Some (staged L W C x)],
           queued = length (filter (accepted L W C) pre) + 1, unread = post \<rparr>"
    using assms(3,4,5) by (simp add: fill_loop_Cons reached_def del: fill_loop.simps)
  finally have "fill_media_queue L W queue d ms (Some k) no condition
       = \<lparr> put = queue @ map (\<lambda>m. Some (staged L W C m)) (filter (accepted L W C) pre)
                 @ [Some (staged L W C x)],
           queued = length (filter (accepted L W C) pre) + 1,
           unread = post \<rparr>"
    unfolding fill_media_queue_def Let_def assms(1) [symmetric] assms(2) .
  then show ?thesis using assms(5) by simp
qed

theorem stops_at_media_count_witness:
  "fill_media_queue scenario_looter scenario_world [] 0 scenario (Some 2) False (Some images_only)
     = \<lparr> put = [Some img1, Some img2], queued = 2, unread = [img3, sidecar1] \<rparr>
   \<and> int (queued (fill_media_queue scenario_looter scenario_world [] 0 scenario (Some 2) False
       (Some images_only))) = 2"
proof -
  have c: "images_only = the_condition scenario_looter (Some images_only)"
    by (simp add: the_condition_def)
  have s: "scenario = [img1, vid1] @ img2 # [img3, sidecar1]" by (simp add: scenario_def)
  have x: "accepted scenario_looter scenario_world images_only img2"
    by (simp add: accepted_def staged_def scenario_defs fill_defs)
  have n: "\<forall>m\<in>set ([img1, vid1] @ [img2]).
      \<not> halting scenario_looter scenario_world 0 False images_only m"
    by (simp add: halting_def)
  have a: "filter (accepted scenario_looter scenario_world images_only) [img1, vid1] = [img1]"
    by (simp add: accepted_def staged_def scenario_defs fill_defs)
  have k: "(2::int)
      = int (length (filter (accepted scenario_looter scenario_world images_only) [img1, vid1])) + 1"
    unfolding a by simp
  have g: "staged scenario_looter scenario_world images_only img1 = img1"
      "staged scenario_looter scenario_world images_only img2 = img2"
    by (simp_all add: staged_def scenario_defs fill_defs)
  show ?thesis
    using stops_at_media_count [OF c s x n k, of "[]", unfolded a] by (simp add: g)
qed

section \<open>The pool of workers\<close>

lemma fold_snoc: "fold (\<lambda>i acc. acc @ [i]) xs acc = acc @ xs"
  by (induction xs arbitrary: acc) simp_all

lemma workers_of_pool: "fst (init_workers L) = [0..<nat (jobs L)]"
  by (simp add: init_workers_def fold_snoc)

lemma fold_pills: "fold (\<lambda>worker q. q @ [None]) ws q = q @ replicate (length ws) None"
proof (induction ws arbitrary: q)
  case Nil
  then show ?case by simp
next
  case (Cons w ws)
  have "replicate (length ws) None @ [None] = None # replicate (length ws) (None :: media option)"
    by (simp add: replicate_append_same)
  then show ?case using Cons.IH [of "q @ [None]"] by simp
qed

lemma pills_of_pool: "poison_workers ws q = q @ replicate (length ws) None"
  by (simp add: poison_workers_def fold_pills)

text \<open>No call of \<open>join\<close> brings a worker back, and each leaves its own worker exited.\<close>

lemma join_each_exited:
  "join_each ws alive run \<Longrightarrow>
   last (alive # run) \<subseteq> alive \<and> (\<forall>w\<in>set ws. w \<notin> last (alive # run))"
proof (induction ws alive run rule: join_each.induct)
  case (1 alive)
  then show ?case by simp
next
  case (2 w ws alive alive' run)
  then have "last (alive' # run) \<subseteq> alive'" "\<forall>v\<in>set ws. v \<notin> last (alive' # run)"
    and "alive' \<subseteq> alive" "w \<notin> alive'"
    by simp_all
  then show ?case by auto
next
  case (3 alive alive' run)
  then show ?case by simp
next
  case (4 w ws alive)
  then show ?case by simp
qed

lemma join_workers_exited:
  "join_workers ws alive run \<Longrightarrow> w \<in> set ws \<Longrightarrow> w \<notin> last (alive # run)"
  using join_each_exited [of ws alive run]
  by (auto simp add: join_workers_def split: if_splits)

text \<open>
  C7. For every jobs count \<open>n\<close>, \<open>_init_workers\<close> starts exactly \<open>n\<close> workers (each
  once, with an empty queue) and \<open>_poison_workers\<close> puts exactly \<open>n\<close> poison pills
  after what the queue holds, one per worker started; and in every run of
  \<open>_join_workers\<close> none of the workers is alive when it returns.
\<close>

theorem pool_started_poisoned_joined:
  assumes "jobs L = int n"
    and "workers = fst (init_workers L)"
  shows "length workers = n \<and> distinct workers \<and> snd (init_workers L) = []
       \<and> poison_workers workers queue = queue @ replicate n None
       \<and> count_list (poison_workers workers []) None = length workers
       \<and> (join_workers workers alive run \<longrightarrow> (\<forall>w\<in>set workers. w \<notin> last (alive # run)))"
proof -
  have w: "workers = [0..<n]" using assms by (simp add: workers_of_pool)
  then have len: "length workers = n" and dis: "distinct workers" by simp_all
  have q: "snd (init_workers L) = []" by (simp add: init_workers_def)
  have p: "poison_workers workers queue = queue @ replicate n None"
    using len by (simp add: pills_of_pool)
  have "count_list (replicate k (None :: media option)) None = k" for k
    by (induction k) simp_all
  then have c: "count_list (poison_workers workers []) None = length workers"
    by (simp add: pills_of_pool)
  show ?thesis using len dis q p c join_workers_exited [of workers alive run] by blast
qed

theorem pool_started_poisoned_joined_witness:
  "length (fst (init_workers scenario_looter)) = 2
   \<and> poison_workers (fst (init_workers scenario_looter)) [Some img1] = [Some img1, None, None]
   \<and> join_workers (fst (init_workers scenario_looter)) {0, 1} [{1}, {}]
   \<and> 0 \<notin> last ({0, 1} # [{1}, {} :: worker set])
   \<and> 1 \<notin> last ({0, 1} # [{1}, {} :: worker set])"
proof -
  have j: "jobs scenario_looter = int 2" by (simp add: scenario_defs)
  have "[0..<2] = [0, Suc 0]" by (simp add: numeral_2_eq_2 upt_conv_Cons)
  then have w: "fst (init_workers scenario_looter) = [0, 1]"
    by (simp add: workers_of_pool j)
  have r: "join_workers (fst (init_workers scenario_looter)) {0, 1} [{1}, {}]"
    by (auto simp add: w join_workers_def)
  show ?thesis
    using pool_started_poisoned_joined [OF j refl, of "[Some img1]" "{0, 1}" "[{1}, {}]"] r w
    by (simp add: numeral_2_eq_2)
qed

section \<open>Opening and closing the destination\<close>

text \<open>
  \<open>InstaLooter.download\<close> opens and closes nothing when it is given a filesystem
  instance, and \<open>PostLooter.download\<close> never closes anything.
\<close>

lemma download_leaves_instance:
  "opened (fst (download L W medias (Instance f) condition mc no pgpbar_cls dlpbar_cls)) = []
   \<and> closed (fst (download L W medias (Instance f) condition mc no pgpbar_cls dlpbar_cls)) = []"
  by (simp add: download_def init_destfs_def no_effects_def Let_def
      split: prod.splits sum.splits)

lemma post_download_closes_nothing:
  "closed (fst (post_download L W code destination condition mc no)) = []"
  by (simp add: post_download_def no_effects_def Let_def split: prod.splits sum.splits)

text \<open>
  C8. The claim: every \<open>download\<close>, the override of \<open>PostLooter\<close> included, closes
  before it returns the filesystem it has opened from a string. The code:
  \<open>PostLooter.download\<close> called with an FS URL opens the filesystem, queues the post,
  returns 1, and has closed nothing.
\<close>

theorem post_download_leaves_open:
  "post_download scenario_looter scenario_world ''img1'' (Url ''pictures'') None None False
   = (\<lparr> opened = [open_fs scenario_world ''pictures''], started = [],
        puts = [Some img1, None], warnings = [], closed = [] \<rparr>, Inr 1)"
  by (simp add: scenario_defs fill_defs download_defs)

theorem post_download_leaves_open_witness:
  "open_fs scenario_world ''pictures''
     \<in> set (opened (fst (post_download scenario_looter scenario_world ''img1'' (Url ''pictures'')
         None None False)))
   \<and> open_fs scenario_world ''pictures''
     \<notin> set (closed (fst (post_download scenario_looter scenario_world ''img1'' (Url ''pictures'')
         None None False)))"
  using post_download_leaves_open by simp

section \<open>No medias found\<close>

text \<open>
  C9. When the fill accepts no media, \<open>InstaLooter.download\<close> does not raise: given a
  destination and progress bar classes that \<open>_init_destfs\<close> and \<open>_init_pbar\<close> accept,
  it returns the count 0 and has issued the one warning \<open>No medias found.\<close>
\<close>

theorem no_medias_warning:
  assumes "init_destfs W destination = Inr (d, close_destination)"
    and "pgpbar_cls \<noteq> Some OtherClass" and "dlpbar_cls \<noteq> Some OtherClass"
    and "queued (fill_media_queue L W [] d medias mc no condition) = 0"
  shows "snd (download L W medias destination condition mc no pgpbar_cls dlpbar_cls) = Inr 0
       \<and> warnings (fst (download L W medias destination condition mc no pgpbar_cls dlpbar_cls))
           = [''No medias found.'']"
proof -
  have "init_pbar pgpbar_cls = Inr ()" "init_pbar dlpbar_cls = Inr ()"
    using assms(2,3) by (auto simp add: init_pbar_def split: option.splits pbar_cls.splits)
  then show ?thesis
    using assms(1,4) by (simp add: download_def init_workers_def no_effects_def Let_def)
qed

theorem no_medias_warning_witness:
  "snd (download scenario_looter scenario_world [vid1] (Url ''pictures'') None None False None
          (Some ProgressBarClass)) = Inr 0
   \<and> warnings (fst (download scenario_looter scenario_world [vid1] (Url ''pictures'') None None
          False None (Some ProgressBarClass))) = [''No medias found.'']"
proof -
  have d: "init_destfs scenario_world (Url ''pictures'') = Inr (0, True)"
    by (simp add: init_destfs_def scenario_defs)
  have p: "(None :: pbar_cls option) \<noteq> Some OtherClass"
    "Some ProgressBarClass \<noteq> Some OtherClass" by simp_all
  have z: "queued (fill_media_queue scenario_looter scenario_world [] 0 [vid1] None False None) = 0"
    by (simp add: scenario_defs fill_defs)
  show ?thesis by (rule no_medias_warning [OF d p z])
qed

section \<open>Further properties\<close>

text \<open>
  X1. \<open>InstaLooter.download\<close>, given an FS URL and progress bar classes that
  \<open>_init_pbar\<close> accepts, opens one filesystem and has closed that filesystem when it
  returns.
\<close>

theorem download_closes_url:
  assumes "pgpbar_cls \<noteq> Some OtherClass" and "dlpbar_cls \<noteq> Some OtherClass"
  shows "opened (fst (download L W medias (Url u) condition mc no pgpbar_cls dlpbar_cls))
           = [open_fs W u]
       \<and> closed (fst (download L W medias (Url u) condition mc no pgpbar_cls dlpbar_cls))
           = [open_fs W u]
       \<and> snd (download L W medias (Url u) condition mc no pgpbar_cls dlpbar_cls)
           = Inr (queued (fill_media_queue L W [] (open_fs W u) medias mc no condition))"
proof -
  have "init_pbar pgpbar_cls = Inr ()" "init_pbar dlpbar_cls = Inr ()"
    using assms by (auto simp add: init_pbar_def split: option.splits pbar_cls.splits)
  then show ?thesis
    by (simp add: download_def init_destfs_def init_workers_def no_effects_def Let_def)
qed

theorem download_closes_url_witness:
  "opened (fst (download scenario_looter scenario_world scenario (Url ''pictures'')
       (Some images_only) (Some 10) False None None)) = [0]
   \<and> closed (fst (download scenario_looter scenario_world scenario (Url ''pictures'')
       (Some images_only) (Some 10) False None None)) = [0]
   \<and> snd (download scenario_looter scenario_world scenario (Url ''pictures'')
       (Some images_only) (Some 10) False None None) = Inr 4"
proof -
  have p: "(None :: pbar_cls option) \<noteq> Some OtherClass" by simp
  have o: "open_fs scenario_world ''pictures'' = 0" by (simp add: scenario_defs)
  show ?thesis
    using download_closes_url [OF p p, of scenario_looter scenario_world scenario "''pictures''"
        "Some images_only" "Some 10" False]
    by (simp add: o scenario_run)
qed

text \<open>
  X2. The loop that checks the children of a sidecar, which removes from the edge
  list the first entry equal to each child that fails the condition, leaves exactly
  the children that satisfy the condition, in their order.
\<close>

theorem check_nodes_keeps_passing:
  "check_nodes C es = filter C es \<and> length (check_nodes C es) \<le> length es"
  by (simp add: check_nodes_filter)

theorem check_nodes_keeps_passing_witness:
  "check_nodes images_only [child_img, child_vid, child_img] = [child_img, child_img]"
  using check_nodes_keeps_passing [of images_only "[child_img, child_vid, child_img]"]
  by (simp add: scenario_defs)

text \<open>
  X3. What \<open>_fill_media_queue\<close> does is the same whether the looter's
  \<open>extended_dump\<close> attribute is set or not.
\<close>

theorem fill_ignores_extended_dump:
  "fill_media_queue (L\<lparr>extended_dump := True\<rparr>) W queue d ms mc no condition
   = fill_media_queue (L\<lparr>extended_dump := False\<rparr>) W queue d ms mc no condition"
  by (simp add: fill_media_queue_extended_dump)

theorem fill_ignores_extended_dump_witness:
  "fill_media_queue (scenario_looter\<lparr>extended_dump := True\<rparr>) scenario_world [] 0 scenario
       (Some 10) False (Some images_only)
   = fill_media_queue scenario_looter scenario_world [] 0 scenario (Some 10) False
       (Some images_only)"
proof -
  have "scenario_looter\<lparr>extended_dump := False\<rparr> = scenario_looter"
    by (simp add: scenario_defs)
  then show ?thesis
    using fill_ignores_extended_dump [of scenario_looter scenario_world "[]" 0 scenario "Some 10"
        False "Some images_only"]
    by simp
qed


end
